theory Spec2Isabelle
  imports Complex_Main
begin

section \<open>Python values used by the generator and the ingestion endpoint\<close>

text \<open>
  Exceptions are values. Only the class of an exception matters to the code under study
  (every handler is \<^verbatim>\<open>except Exception\<close>), so an error carries its class and, where the
  source builds one, its message.
\<close>

datatype py_error =
    ZeroDivisionError
  | KeyError string
  | AttributeError
  | TypeError
  | ValueError string
  | JSONDecodeError
  | APIError
  | IntegrityError
  | UnicodeEncodeError
  | OSError

text \<open>
  Strings are \<^typ>\<open>string\<close>. The model covers ASCII text: \<open>lower\<close> maps \<open>A..Z\<close> to
  \<open>a..z\<close>, and the whitespace of \<^verbatim>\<open>str.strip()\<close> and \<^verbatim>\<open>str.split()\<close> is the ASCII
  whitespace of Python (tab, line feed, vertical tab, form feed, carriage return, the four
  separators 0x1C..0x1F and the space).
\<close>

definition is_space :: "char \<Rightarrow> bool" where
  "is_space c =
     (let n = (of_char c :: nat) in (9 \<le> n \<and> n \<le> 13) \<or> (28 \<le> n \<and> n \<le> 32))"

definition lower_char :: "char \<Rightarrow> char" where
  "lower_char c =
     (let n = (of_char c :: nat) in if 65 \<le> n \<and> n \<le> 90 then char_of (n + 32) else c)"

definition lower :: "string \<Rightarrow> string" where
  "lower s = map lower_char s"

definition strip :: "string \<Rightarrow> string" where
  "strip s = rev (dropWhile is_space (rev (dropWhile is_space s)))"

text \<open>\<^verbatim>\<open>s.split()\<close>: the maximal runs of non-whitespace characters, in order.\<close>

function split :: "string \<Rightarrow> string list" where
  "split s =
     (case dropWhile is_space s of
        [] \<Rightarrow> []
      | c # cs \<Rightarrow>
          takeWhile (\<lambda>x. \<not> is_space x) (c # cs) # split (dropWhile (\<lambda>x. \<not> is_space x) cs))"
  by pat_completeness auto
termination
proof (relation "measure length")
  show "wf (measure length)" by simp
next
  fix s :: string and c cs
  assume a: "dropWhile is_space s = c # cs"
  have "length (dropWhile (\<lambda>x. \<not> is_space x) cs) \<le> length cs"
    by (rule length_dropWhile_le)
  moreover have "length (c # cs) \<le> length s"
    using length_dropWhile_le [of is_space s] a by simp
  ultimately show "(dropWhile (\<lambda>x. \<not> is_space x) cs, s) \<in> measure length"
    by simp
qed

declare split.simps [simp del]

section \<open>Name Registry (generate\_data.py)\<close>

text \<open>
  The two module-level sets \<^verbatim>\<open>used_company_names\<close> and \<^verbatim>\<open>used_product_names\<close>. A Python
  set is kept as the list of its elements in iteration order, without repetition;
  \<^verbatim>\<open>set.add\<close> is \<^const>\<open>List.insert\<close>.
\<close>

definition set_add :: "string \<Rightarrow> string list \<Rightarrow> string list" where
  "set_add x xs = List.insert x xs"

text \<open>
  \<^verbatim>\<open>len(a & b) / max(len(a), len(b))\<close>: true division raises on a zero divisor. The
  quotient is kept exact (a rational); Python rounds it to a double and compares with the
  double \<open>0.7\<close>, which agrees with the exact comparison with \<open>7/10\<close> for every pair of
  sets of fewer than \<open>2^50\<close> tokens, and in the direction from exact to rounded always.
\<close>

definition truediv :: "nat \<Rightarrow> nat \<Rightarrow> py_error + rat" where
  "truediv a b = (if b = 0 then Inl ZeroDivisionError else Inr (of_nat a / of_nat b))"

text \<open>The loop \<^verbatim>\<open>for existing in used_company_names\<close> of \<^verbatim>\<open>is_duplicate_company\<close>.\<close>

fun scan_existing :: "string set \<Rightarrow> string list \<Rightarrow> py_error + bool" where
  "scan_existing name_words [] = Inr False"
| "scan_existing name_words (existing # rest) =
     (let existing_words = set (split existing) in
      if name_words \<noteq> {} \<and> existing_words \<noteq> {} then
        (case truediv (card (name_words \<inter> existing_words))
                      (max (card name_words) (card existing_words)) of
           Inl e \<Rightarrow> Inl e
         | Inr overlap \<Rightarrow>
             if overlap \<ge> 7 / 10 then Inr True else scan_existing name_words rest)
      else scan_existing name_words rest)"

definition is_duplicate_company :: "string list \<Rightarrow> string \<Rightarrow> py_error + bool" where
  "is_duplicate_company used_company_names company_name =
     (let name_lower = strip (lower company_name) in
      if name_lower \<in> set used_company_names then Inr True
      else scan_existing (set (split name_lower)) used_company_names)"

definition is_duplicate_product :: "string list \<Rightarrow> string \<Rightarrow> bool" where
  "is_duplicate_product used_product_names product_name =
     (strip (lower product_name) \<in> set used_product_names)"

text \<open>
  Registration is written inline in \<^verbatim>\<open>generate_company_data\<close>:
  \<^verbatim>\<open>used_company_names.add(company_data["name"].lower().strip())\<close>.
\<close>

definition register_company :: "string \<Rightarrow> string list \<Rightarrow> string list" where
  "register_company name used_company_names = set_add (strip (lower name)) used_company_names"

definition register_product :: "string \<Rightarrow> string list \<Rightarrow> string list" where
  "register_product name used_product_names = set_add (strip (lower name)) used_product_names"

text \<open>
  The specification's similarity of two names: the whitespace-split tokens of the
  lowercased names, and the size of their intersection over the larger of the two sizes.
  (Division by zero is \<open>0\<close> in HOL, so two names without tokens have ratio \<open>0\<close>.)
\<close>

definition tokens :: "string \<Rightarrow> string set" where
  "tokens name = set (split (lower name))"

definition token_overlap_ratio :: "string \<Rightarrow> string \<Rightarrow> rat" where
  "token_overlap_ratio a b =
     of_nat (card (tokens a \<inter> tokens b)) / of_nat (max (card (tokens a)) (card (tokens b)))"

section \<open>Record Generator (generate\_data.py)\<close>

text \<open>
  JSON data. A scalar is null, a string or an integer; an object is the list of its
  key/value pairs (keys are distinct, \<^const>\<open>map_of\<close> reads one). A company record is the
  object returned by \<^verbatim>\<open>json.loads\<close>: its scalar entries, and its \<^verbatim>\<open>"products"\<close> entry (a
  list of objects) if it has one.
\<close>

datatype jval = JNull | JStr string | JInt int

type_synonym pydict = "(string \<times> jval) list"

record company_data =
  cd_fields :: pydict
  cd_products :: "pydict list option"

text \<open>
  The world outside the function. The text-generation API is an oracle: the \<open>n\<close>-th call
  of a run either raises (the call itself, the fence stripping or \<^verbatim>\<open>json.loads\<close>) or
  yields a parsed object, whatever the prompt was. \<^verbatim>\<open>random\<close> is a stream of draws,
  \<^verbatim>\<open>input()\<close> answers with a fixed line.
\<close>

datatype api_outcome = Raises py_error | Parsed company_data

record environment =
  api :: "nat \<Rightarrow> api_outcome"
  rand :: "nat \<Rightarrow> nat"
  answer :: string

text \<open>
  The checkpoint file \<^verbatim>\<open>generation_progress.json\<close>. A file on disk may be absent,
  unreadable as JSON, or a JSON object in which every key may be missing and a name list
  may hold something that \<^verbatim>\<open>set.update\<close> cannot iterate. (\<^verbatim>\<open>last_updated\<close>, a time
  stamp that nothing reads, is left out.)
\<close>

datatype names_field = KeyAbsent | NotIterable | Names "string list"

record progress_data =
  pd_companies :: "company_data list option"
  pd_current_index :: "nat option"
  pd_total_target :: "nat option"
  pd_used_company_names :: names_field
  pd_used_product_names :: names_field

datatype progress_file_state = NoFile | Unreadable | Content progress_data

text \<open>
  The output file \<^verbatim>\<open>startup_data.json\<close>: absent, left incomplete by a write that
  raised, or holding a list of companies.
\<close>

datatype output_file_state = NoOutput | Partial | Companies "company_data list"

text \<open>Lines written to standard output, by the \<^verbatim>\<open>print\<close> that writes them.\<close>

datatype out_line =
    Banner
  | Warning
  | Found nat
  | Blank
  | Target nat
  | Generating nat string
  | Succeeded jval nat
  | Failed py_error
  | Summary nat nat

text \<open>
  The module state: the two registry sets, the number of API calls and random draws made
  so far, the two files and the output written so far.
\<close>

record world =
  used_company_names :: "string list"
  used_product_names :: "string list"
  api_calls :: nat
  draws :: nat
  progress_file :: progress_file_state
  output_file :: output_file_state
  stdout :: "out_line list"

definition print :: "out_line \<Rightarrow> world \<Rightarrow> world" where
  "print l w = w\<lparr>stdout := stdout w @ [l]\<rparr>"

definition random_choice :: "environment \<Rightarrow> 'a list \<Rightarrow> world \<Rightarrow> 'a \<times> world" where
  "random_choice env xs w = (xs ! (rand env (draws w) mod length xs), w\<lparr>draws := draws w + 1\<rparr>)"

definition required :: "string list" where
  "required = [''name'', ''tagline'', ''description'', ''industry'', ''founded_year'',
               ''employee_count'', ''headquarters'', ''website_url'', ''products'']"

text \<open>\<^verbatim>\<open>field in company_data\<close>.\<close>

definition has_key :: "company_data \<Rightarrow> string \<Rightarrow> bool" where
  "has_key cd k =
     (if k = ''products'' then cd_products cd \<noteq> None else map_of (cd_fields cd) k \<noteq> None)"

text \<open>
  \<^verbatim>\<open>d[k].lower()\<close>, as far as it can fail: a missing key raises \<^verbatim>\<open>KeyError\<close>, a value
  that is not a string has no method \<^verbatim>\<open>lower\<close>.
\<close>

definition str_item :: "pydict \<Rightarrow> string \<Rightarrow> py_error + string" where
  "str_item d k =
     (case map_of d k of
        None \<Rightarrow> Inl (KeyError k)
      | Some (JStr s) \<Rightarrow> Inr s
      | Some _ \<Rightarrow> Inl AttributeError)"

text \<open>
  The product check,
  \<^verbatim>\<open>for product in company_data["products"]:
      if is_duplicate_product(product["name"]):
          if attempt < 4: continue
          raise ValueError("Duplicate product name")\<close>
  The \<^verbatim>\<open>continue\<close> belongs to the innermost loop, the one over the products: it goes on
  with the next product.
\<close>

fun check_products :: "nat \<Rightarrow> string list \<Rightarrow> pydict list \<Rightarrow> py_error + unit" where
  "check_products attempt used [] = Inr ()"
| "check_products attempt used (product # rest) =
     (case str_item product ''name'' of
        Inl e \<Rightarrow> Inl e
      | Inr name \<Rightarrow>
          if is_duplicate_product used name then
            (if attempt < 4 then check_products attempt used rest
             else Inl (ValueError ''Duplicate product name''))
          else check_products attempt used rest)"

text \<open>\<^verbatim>\<open>for product in ...: used_product_names.add(product["name"].lower().strip())\<close>.\<close>

fun register_products :: "pydict list \<Rightarrow> string list \<Rightarrow> py_error option \<times> string list" where
  "register_products [] used = (None, used)"
| "register_products (product # rest) used =
     (case str_item product ''name'' of
        Inl e \<Rightarrow> (Some e, used)
      | Inr name \<Rightarrow> register_products rest (register_product name used))"

text \<open>
  One pass through the body of \<^verbatim>\<open>for attempt in range(5)\<close>, up to the point where the
  \<^verbatim>\<open>try\<close> block is left: by \<^verbatim>\<open>continue\<close>, by \<^verbatim>\<open>return\<close> or by an exception.
\<close>

datatype attempt_outcome = Continue | Return company_data | Raise py_error

definition attempt_body ::
  "environment \<Rightarrow> nat \<Rightarrow> nat \<Rightarrow> world \<Rightarrow> attempt_outcome \<times> world" where
  "attempt_body env num_products attempt w =
     (let w1 = w\<lparr>api_calls := api_calls w + 1\<rparr> in
      case api env (api_calls w) of
        Raises e \<Rightarrow> (Raise e, w1)
      | Parsed company_data \<Rightarrow>
          (case find (\<lambda>field. \<not> has_key company_data field) required of
             Some field \<Rightarrow> (Raise (ValueError (''Missing field: '' @ field)), w1)
           | None \<Rightarrow>
               (case cd_products company_data of
                  None \<Rightarrow> (Raise (KeyError ''products''), w1)
                | Some products \<Rightarrow>
                    if length products \<noteq> num_products
                    then (Raise (ValueError ''Expected a different number of products''), w1)
                    else
                      (case str_item (cd_fields company_data) ''name'' of
                         Inl e \<Rightarrow> (Raise e, w1)
                       | Inr name \<Rightarrow>
                           (case is_duplicate_company (used_company_names w1) name of
                              Inl e \<Rightarrow> (Raise e, w1)
                            | Inr True \<Rightarrow>
                                if attempt < 4 then (Continue, w1)
                                else (Raise (ValueError ''Duplicate company name''), w1)
                            | Inr False \<Rightarrow>
                                (case check_products attempt (used_product_names w1) products of
                                   Inl e \<Rightarrow> (Raise e, w1)
                                 | Inr _ \<Rightarrow>
                                     (let w2 = w1\<lparr>used_company_names :=
                                                    register_company name (used_company_names w1)\<rparr>
                                      in case register_products products (used_product_names w2) of
                                           (Some e, used) \<Rightarrow>
                                             (Raise e, w2\<lparr>used_product_names := used\<rparr>)
                                         | (None, used) \<Rightarrow>
                                             (Return company_data,
                                              w2\<lparr>used_product_names := used\<rparr>))))))))"

text \<open>
  The loop \<^verbatim>\<open>for attempt in range(5)\<close> with its handler
  \<^verbatim>\<open>except Exception: if attempt == 4: raise\<close> (the pause \<^verbatim>\<open>time.sleep(2)\<close> has no
  effect on the state). A loop that ran to its end would leave the function without a
  \<^verbatim>\<open>return\<close>, which in Python returns \<^verbatim>\<open>None\<close>.
\<close>

function attempt_loop ::
  "environment \<Rightarrow> nat \<Rightarrow> nat \<Rightarrow> world \<Rightarrow> (py_error + company_data option) \<times> world" where
  "attempt_loop env num_products attempt w =
     (if attempt < 5 then
        (case attempt_body env num_products attempt w of
           (Return company_data, w') \<Rightarrow> (Inr (Some company_data), w')
         | (Continue, w') \<Rightarrow> attempt_loop env num_products (attempt + 1) w'
         | (Raise e, w') \<Rightarrow>
             if attempt = 4 then (Inl e, w')
             else attempt_loop env num_products (attempt + 1) w')
      else (Inr None, w))"
  by pat_completeness auto
termination
  by (relation "measure (\<lambda>(env, num_products, attempt, w). 5 - attempt)") auto

declare attempt_loop.simps [simp del]

text \<open>
  \<^verbatim>\<open>generate_company_data(industry, industry_info)\<close>. The industry goes into the prompt
  only, and the oracle answers whatever the prompt.
\<close>

definition generate_company_data ::
  "environment \<Rightarrow> string \<Rightarrow> world \<Rightarrow> (py_error + company_data option) \<times> world" where
  "generate_company_data env industry w =
     (let (num_products, w1) = random_choice env [3, 4] w
      in attempt_loop env num_products 0 w1)"

text \<open>
  A concrete run: the registry already holds the product name \<open>payflow\<close>, and the API
  answers every call with a well-formed FinTech company of three products, the first of
  them named \<open>PayFlow\<close>.
\<close>

definition payflow_company :: company_data where
  "payflow_company =
     \<lparr>cd_fields =
        [(''name'', JStr ''Acme Pay''), (''tagline'', JStr ''Payments made simple''),
         (''description'', JStr ''Acme Pay builds payment tools for small shops.''),
         (''industry'', JStr ''FinTech''), (''founded_year'', JInt 2021),
         (''employee_count'', JInt 40), (''headquarters'', JStr ''Austin, USA''),
         (''website_url'', JStr ''www.acmepay.com'')],
      cd_products = Some
        [[(''name'', JStr ''PayFlow''), (''description'', JStr ''Card payments.''),
          (''target_audience'', JStr ''SMBs''), (''key_features'', JStr ''Invoices''),
          (''pricing_model'', JStr ''Subscription'')],
         [(''name'', JStr ''LedgerLite''), (''description'', JStr ''Bookkeeping.''),
          (''target_audience'', JStr ''SMBs''), (''key_features'', JStr ''Reports''),
          (''pricing_model'', JStr ''Freemium'')],
         [(''name'', JStr ''CoinVault''), (''description'', JStr ''Custody.''),
          (''target_audience'', JStr ''SMBs''), (''key_features'', JStr ''Cold storage''),
          (''pricing_model'', JStr ''Enterprise'')]]\<rparr>"

definition payflow_env :: environment where
  "payflow_env = \<lparr>api = (\<lambda>n. Parsed payflow_company), rand = (\<lambda>n. 0), answer = ''y''\<rparr>"

definition payflow_world :: world where
  "payflow_world =
     \<lparr>used_company_names = [], used_product_names = [''payflow''], api_calls = 0, draws = 0,
      progress_file = NoFile, output_file = NoOutput, stdout = []\<rparr>"

section \<open>Progress Checkpoint Store and Batch Orchestrator (generate\_data.py)\<close>

definition TOTAL_COMPANIES :: nat where
  "TOTAL_COMPANIES = 10"


text \<open>\<^verbatim>\<open>s.update(progress_data.get(key, []))\<close>.\<close>

definition set_update :: "string list \<Rightarrow> names_field \<Rightarrow> py_error + string list" where
  "set_update used field =
     (case field of
        KeyAbsent \<Rightarrow> Inr used
      | NotIterable \<Rightarrow> Inl TypeError
      | Names names \<Rightarrow> Inr (foldl (\<lambda>acc name. set_add name acc) used names))"

definition load_progress :: "world \<Rightarrow> (company_data list \<times> nat) \<times> world" where
  "load_progress w =
     (case progress_file w of
        NoFile \<Rightarrow> (([], 0), w)
      | Unreadable \<Rightarrow> (([], 0), print Warning w)
      | Content progress_data \<Rightarrow>
          (case set_update (used_company_names w) (pd_used_company_names progress_data) of
             Inl e \<Rightarrow> (([], 0), print Warning w)
           | Inr company_names \<Rightarrow>
               (let w1 = w\<lparr>used_company_names := company_names\<rparr> in
                case set_update (used_product_names w1) (pd_used_product_names progress_data) of
                  Inl e \<Rightarrow> (([], 0), print Warning w1)
                | Inr product_names \<Rightarrow>
                    ((case pd_companies progress_data of None \<Rightarrow> [] | Some cs \<Rightarrow> cs,
                      case pd_current_index progress_data of None \<Rightarrow> 0 | Some i \<Rightarrow> i),
                     w1\<lparr>used_product_names := product_names\<rparr>))))"

text \<open>
  What becomes of a write is decided outside the program. For the state of the world at
  the moment of the call, an oracle says whether \<^verbatim>\<open>json.dump\<close> into the freshly opened
  file succeeds, raises after the file was opened and truncated (as
  \<^verbatim>\<open>UnicodeEncodeError\<close> does for a string with a lone surrogate, which \<^verbatim>\<open>json.loads\<close>
  accepts in an API answer), or whether \<^verbatim>\<open>open\<close> itself raises; and whether standard
  output can encode a line that carries received text or the marks of the script. The
  other lines are ASCII and are taken to print, and removing an existing file is taken
  to succeed.
\<close>

datatype write_outcome = Written | Truncated | Refused

record io =
  write_progress :: "world \<Rightarrow> progress_data \<Rightarrow> write_outcome"
  write_output :: "world \<Rightarrow> company_data list \<Rightarrow> write_outcome"
  can_print :: "world \<Rightarrow> out_line \<Rightarrow> bool"

text \<open>The object that \<^verbatim>\<open>save_progress\<close> builds, and the function itself.\<close>

definition checkpoint :: "company_data list \<Rightarrow> nat \<Rightarrow> world \<Rightarrow> progress_data" where
  "checkpoint companies current_index w =
     \<lparr>pd_companies = Some companies,
      pd_current_index = Some current_index,
      pd_total_target = Some TOTAL_COMPANIES,
      pd_used_company_names = Names (used_company_names w),
      pd_used_product_names = Names (used_product_names w)\<rparr>"

definition save_progress ::
  "io \<Rightarrow> company_data list \<Rightarrow> nat \<Rightarrow> world \<Rightarrow> py_error option \<times> world" where
  "save_progress sys companies current_index w =
     (let progress_data = checkpoint companies current_index w in
      case write_progress sys w progress_data of
        Written \<Rightarrow> (None, w\<lparr>progress_file := Content progress_data\<rparr>)
      | Truncated \<Rightarrow> (Some UnicodeEncodeError, w\<lparr>progress_file := Unreadable\<rparr>)
      | Refused \<Rightarrow> (Some OSError, w))"

definition print_line :: "io \<Rightarrow> out_line \<Rightarrow> world \<Rightarrow> py_error option \<times> world" where
  "print_line sys l w =
     (if can_print sys w l then (None, print l w) else (Some UnicodeEncodeError, w))"











text \<open>The indices announced on standard output, in order.\<close>

fun generating_indices :: "out_line list \<Rightarrow> nat list" where
  "generating_indices [] = []"
| "generating_indices (Generating i industry # rest) = i # generating_indices rest"
| "generating_indices (l # rest) = generating_indices rest"

text \<open>The names a checkpoint file contributes to a registry set.\<close>

definition persisted_names :: "names_field \<Rightarrow> string set" where
  "persisted_names field = (case field of Names names \<Rightarrow> set names | _ \<Rightarrow> {})"

text \<open>
  A checkpoint left by an interrupted run: one company accepted, next index \<open>k\<close>.
\<close>

definition resume_world :: "nat \<Rightarrow> world" where
  "resume_world k =
     payflow_world
       \<lparr>used_product_names := [],
        progress_file := Content
          \<lparr>pd_companies = Some [payflow_company],
           pd_current_index = Some k,
           pd_total_target = Some 10,
           pd_used_company_names = Names [''acme pay''],
           pd_used_product_names = Names [''payflow'', ''ledgerlite'', ''coinvault'']\<rparr>\<rparr>"







section \<open>Ingestion Endpoint (main.py, models.py)\<close>

text \<open>
  The object-relational session. The module \<^verbatim>\<open>database\<close> that creates it is not among
  the sources, so what depends on it is a parameter: whether the session flushes before
  a query (\<^verbatim>\<open>autoflush\<close>), and the values that \<^verbatim>\<open>uuid.uuid4()\<close> returns, as a stream.
\<close>

record orm =
  autoflush :: bool
  uuid4 :: "nat \<Rightarrow> string"

text \<open>
  Rows of the two tables of \<^verbatim>\<open>models.py\<close>: the primary key, and the other columns by name
  (for a product, the foreign key apart).
\<close>

record company_row =
  c_id :: jval
  c_cols :: pydict

record product_row =
  p_id :: jval
  p_company_id :: jval
  p_cols :: pydict

text \<open>
  A session over the database: the committed rows, the rows inserted by the open
  transaction, the \<^verbatim>\<open>Product\<close> objects added and not yet flushed (owner and keyword
  arguments), and how many identifiers were drawn.
\<close>

record session =
  tbl_companies :: "company_row list"
  tbl_products :: "product_row list"
  tx_companies :: "company_row list"
  tx_products :: "product_row list"
  pending_products :: "(jval \<times> pydict) list"
  uuids_drawn :: nat

definition company_attrs :: "string list" where
  "company_attrs = [''id'', ''name'', ''tagline'', ''description'', ''industry'',
                    ''founded_year'', ''employee_count'', ''headquarters'', ''website_url'',
                    ''created_at'']"

definition company_not_null :: "string list" where
  "company_not_null = [''name'', ''tagline'', ''description'', ''industry'', ''founded_year'',
                       ''employee_count'', ''headquarters'']"

definition product_attrs :: "string list" where
  "product_attrs = [''id'', ''name'', ''description'', ''target_audience'', ''key_features'',
                    ''pricing_model'', ''created_at'']"

definition product_not_null :: "string list" where
  "product_not_null = [''name'', ''description'', ''target_audience'', ''key_features'',
                       ''pricing_model'']"

text \<open>\<^verbatim>\<open>{k: v for k, v in d.items() if k != 'id'}\<close>.\<close>

definition without_id :: "pydict \<Rightarrow> pydict" where
  "without_id d = filter (\<lambda>(k, v). k \<noteq> ''id'') d"

text \<open>
  \<^verbatim>\<open>Company(**kwargs)\<close>: the declarative constructor raises \<^verbatim>\<open>TypeError\<close> for a keyword
  that is not an attribute of the class. \<^verbatim>\<open>Product(company_id=..., **kwargs)\<close> raises it
  also for a second \<^verbatim>\<open>company_id\<close>.
\<close>

definition new_Company :: "pydict \<Rightarrow> py_error + pydict" where
  "new_Company kwargs =
     (if \<forall>k \<in> set (map fst kwargs). k \<in> set company_attrs then Inr kwargs else Inl TypeError)"

definition new_Product :: "jval \<Rightarrow> pydict \<Rightarrow> py_error + (jval \<times> pydict)" where
  "new_Product company_id kwargs =
     (if \<forall>k \<in> set (map fst kwargs). k \<in> set product_attrs
      then Inr (company_id, kwargs) else Inl TypeError)"

text \<open>
  An INSERT. A column declared \<^verbatim>\<open>nullable=False\<close> must have a value other than null;
  the primary key is the given \<^verbatim>\<open>id\<close> if there is one, and else the column default
  \<^verbatim>\<open>str(uuid.uuid4())\<close>.
\<close>

definition not_null :: "pydict \<Rightarrow> string list \<Rightarrow> bool" where
  "not_null obj cols =
     (\<forall>k \<in> set cols. case map_of obj k of None \<Rightarrow> False | Some v \<Rightarrow> v \<noteq> JNull)"

definition primary_key :: "orm \<Rightarrow> pydict \<Rightarrow> session \<Rightarrow> jval \<times> session" where
  "primary_key cfg obj s =
     (case map_of obj ''id'' of
        None \<Rightarrow> (JStr (uuid4 cfg (uuids_drawn s)), s\<lparr>uuids_drawn := uuids_drawn s + 1\<rparr>)
      | Some JNull \<Rightarrow> (JStr (uuid4 cfg (uuids_drawn s)), s\<lparr>uuids_drawn := uuids_drawn s + 1\<rparr>)
      | Some v \<Rightarrow> (v, s))"

fun insert_products :: "orm \<Rightarrow> (jval \<times> pydict) list \<Rightarrow> session \<Rightarrow> py_error + session" where
  "insert_products cfg [] s = Inr s"
| "insert_products cfg ((company_id, obj) # rest) s =
     (if not_null obj product_not_null then
        (let (key, s1) = primary_key cfg obj s
         in insert_products cfg rest
              (s1\<lparr>tx_products := tx_products s1 @
                     [\<lparr>p_id = key, p_company_id = company_id, p_cols = without_id obj\<rparr>]\<rparr>))
      else Inl IntegrityError)"

text \<open>\<^verbatim>\<open>db.flush()\<close> with only products pending.\<close>

definition flush :: "orm \<Rightarrow> session \<Rightarrow> py_error + session" where
  "flush cfg s =
     (case insert_products cfg (pending_products s) s of
        Inl e \<Rightarrow> Inl e
      | Inr s' \<Rightarrow> Inr (s'\<lparr>pending_products := []\<rparr>))"

definition name_exists :: "jval \<Rightarrow> session \<Rightarrow> bool" where
  "name_exists name s =
     (\<exists>r \<in> set (tbl_companies s @ tx_companies s). map_of (c_cols r) ''name'' = Some name)"

text \<open>
  \<^verbatim>\<open>db.query(Company).filter(Company.name == name).first()\<close>, as a truth value. With
  \<^verbatim>\<open>autoflush\<close> the pending products are written first, which can raise.
\<close>

definition query_company :: "orm \<Rightarrow> jval \<Rightarrow> session \<Rightarrow> py_error + (bool \<times> session)" where
  "query_company cfg name s =
     (case (if autoflush cfg then flush cfg s else Inr s) of
        Inl e \<Rightarrow> Inl e
      | Inr s1 \<Rightarrow> Inr (name_exists name s1, s1))"

text \<open>
  \<^verbatim>\<open>db.add(new_company); db.flush()\<close>: the company row is inserted (\<^verbatim>\<open>name\<close> is
  \<^verbatim>\<open>unique\<close>), then whatever products are pending. The result is \<^verbatim>\<open>new_company.id\<close>.
\<close>

definition add_company_flush :: "orm \<Rightarrow> pydict \<Rightarrow> session \<Rightarrow> py_error + (jval \<times> session)" where
  "add_company_flush cfg obj s =
     (if not_null obj company_not_null \<and>
         \<not> (case map_of obj ''name'' of None \<Rightarrow> False | Some n \<Rightarrow> name_exists n s) then
        (let (key, s1) = primary_key cfg obj s;
             s2 = s1\<lparr>tx_companies := tx_companies s1 @
                       [\<lparr>c_id = key, c_cols = without_id obj\<rparr>]\<rparr>
         in case flush cfg s2 of Inl e \<Rightarrow> Inl e | Inr s3 \<Rightarrow> Inr (key, s3))
      else Inl IntegrityError)"

definition rollback :: "session \<Rightarrow> session" where
  "rollback s = s\<lparr>tx_companies := [], tx_products := [], pending_products := []\<rparr>"

definition commit :: "orm \<Rightarrow> session \<Rightarrow> py_error + session" where
  "commit cfg s =
     (case flush cfg s of
        Inl e \<Rightarrow> Inl e
      | Inr s1 \<Rightarrow>
          Inr (s1\<lparr>tbl_companies := tbl_companies s1 @ tx_companies s1,
                  tbl_products := tbl_products s1 @ tx_products s1,
                  tx_companies := [], tx_products := []\<rparr>))"

text \<open>The loop \<^verbatim>\<open>for product_data in products_data\<close>.\<close>

fun add_products :: "jval \<Rightarrow> pydict list \<Rightarrow> session \<Rightarrow> py_error + session" where
  "add_products company_id [] s = Inr s"
| "add_products company_id (product_data # rest) s =
     (let product_dict = without_id product_data in
      case new_Product company_id product_dict of
        Inl e \<Rightarrow> Inl e
      | Inr new_product \<Rightarrow>
          add_products company_id rest
            (s\<lparr>pending_products := pending_products s @ [new_product]\<rparr>))"

text \<open>
  The body of the inner \<^verbatim>\<open>try\<close> for one company: it ends in \<^verbatim>\<open>continue\<close> after
  \<^verbatim>\<open>skipped_count += 1\<close>, runs to \<^verbatim>\<open>loaded_count += 1\<close>, or raises.
\<close>

datatype company_outcome = Loaded | Skipped

definition try_company ::
  "orm \<Rightarrow> company_data \<Rightarrow> session \<Rightarrow> py_error + (company_outcome \<times> session)" where
  "try_company cfg company_data s =
     (case map_of (cd_fields company_data) ''name'' of
        None \<Rightarrow> Inl (KeyError ''name'')
      | Some name \<Rightarrow>
          (case query_company cfg name s of
             Inl e \<Rightarrow> Inl e
           | Inr (True, s1) \<Rightarrow> Inr (Skipped, s1)
           | Inr (False, s1) \<Rightarrow>
               (let products_data = (case cd_products company_data of None \<Rightarrow> [] | Some ps \<Rightarrow> ps);
                    company_dict = without_id (cd_fields company_data)
                in case new_Company company_dict of
                     Inl e \<Rightarrow> Inl e
                   | Inr new_company \<Rightarrow>
                       (case add_company_flush cfg new_company s1 of
                          Inl e \<Rightarrow> Inl e
                        | Inr (new_company_id, s2) \<Rightarrow>
                            (case add_products new_company_id products_data s2 of
                               Inl e \<Rightarrow> Inl e
                             | Inr s3 \<Rightarrow> Inr (Loaded, s3))))))"

text \<open>
  The loop state and one iteration with its handler
  \<^verbatim>\<open>except Exception as e: db.rollback(); errors.append({...}); continue\<close>.
  The session that a failed statement leaves behind is rolled back as a whole, so it is
  the session from before the iteration that the handler resets.
\<close>

record load_state =
  loaded_count :: nat
  skipped_count :: nat
  errors :: "(jval \<times> py_error) list"
  db :: session

definition load_company :: "orm \<Rightarrow> load_state \<Rightarrow> company_data \<Rightarrow> load_state" where
  "load_company cfg st company_data =
     (case try_company cfg company_data (db st) of
        Inr (Loaded, s) \<Rightarrow> st\<lparr>loaded_count := loaded_count st + 1, db := s\<rparr>
      | Inr (Skipped, s) \<Rightarrow> st\<lparr>skipped_count := skipped_count st + 1, db := s\<rparr>
      | Inl e \<Rightarrow>
          st\<lparr>errors := errors st @
                [(case map_of (cd_fields company_data) ''name'' of
                    None \<Rightarrow> JStr ''Unknown'' | Some n \<Rightarrow> n, e)],
             db := rollback (db st)\<rparr>)"

text \<open>
  The file \<^verbatim>\<open>startup_data.json\<close> and the endpoint. An \<^verbatim>\<open>HTTPException\<close> raised inside the
  outer \<^verbatim>\<open>try\<close> is an \<^verbatim>\<open>Exception\<close>: the last handler catches it, rolls back and raises
  the status 500.
\<close>

datatype data_file = FileMissing | InvalidJSON | Json "company_data list option"

datatype http_error = HTTPException nat string

record response =
  loaded :: nat
  skipped :: nat
  errors_reported :: "(jval \<times> py_error) list option"

definition load_data_from_json ::
  "orm \<Rightarrow> data_file \<Rightarrow> session \<Rightarrow> (http_error + response) \<times> session" where
  "load_data_from_json cfg file s =
     (case file of
        FileMissing \<Rightarrow> (Inl (HTTPException 404 ''startup_data.json file not found''), s)
      | InvalidJSON \<Rightarrow>
          (Inl (HTTPException 400 ''Invalid JSON format in startup_data.json''), s)
      | Json data \<Rightarrow>
          (let companies_data = (case data of None \<Rightarrow> [] | Some cs \<Rightarrow> cs) in
           if companies_data = [] then
             (Inl (HTTPException 500 ''Error loading data''), rollback s)
           else
             (let st = foldl (load_company cfg)
                         \<lparr>loaded_count = 0, skipped_count = 0, errors = [], db = s\<rparr>
                         companies_data
              in case commit cfg (db st) of
                   Inl e \<Rightarrow> (Inl (HTTPException 500 ''Error loading data''), rollback (db st))
                 | Inr s' \<Rightarrow>
                     (Inr \<lparr>loaded = loaded_count st, skipped = skipped_count st,
                           errors_reported =
                             (if errors st = [] then None else Some (errors st))\<rparr>,
                      s'))))"

text \<open>The input record with every \<^verbatim>\<open>id\<close> key removed, of the company and of its products.\<close>

definition drop_ids :: "company_data \<Rightarrow> company_data" where
  "drop_ids c = c\<lparr>cd_fields := without_id (cd_fields c),
                  cd_products := map_option (map without_id) (cd_products c)\<rparr>"

text \<open>
  A concrete request: an empty database, and a file of two companies of which the second
  has a key that is no column of \<^verbatim>\<open>Company\<close>.
\<close>

definition empty_session :: session where
  "empty_session =
     \<lparr>tbl_companies = [], tbl_products = [], tx_companies = [], tx_products = [],
      pending_products = [], uuids_drawn = 0\<rparr>"

definition example_orm :: "bool \<Rightarrow> orm" where
  "example_orm af = \<lparr>autoflush = af, uuid4 = (\<lambda>n. replicate (Suc n) CHR ''u'')\<rparr>"

definition globex_company :: company_data where
  "globex_company =
     \<lparr>cd_fields =
        [(''name'', JStr ''Globex''), (''tagline'', JStr ''Logistics''),
         (''description'', JStr ''Globex ships parcels.''), (''industry'', JStr ''E-commerce''),
         (''founded_year'', JInt 2020), (''employee_count'', JInt 12),
         (''headquarters'', JStr ''Lyon, France''), (''ceo'', JStr ''Hank'')],
      cd_products = Some []\<rparr>"

text \<open>
  The invariant behind the freshness of identifiers: counting from draw \<open>m\<close>, every row
  is one of the rows \<open>old_c\<close>, \<open>old_p\<close> or carries an identifier drawn since, and no
  pending object was given an \<^verbatim>\<open>id\<close>.
\<close>

definition ids_generated ::
  "orm \<Rightarrow> nat \<Rightarrow> company_row set \<Rightarrow> product_row set \<Rightarrow> session \<Rightarrow> bool" where
  "ids_generated cfg m old_c old_p s \<longleftrightarrow>
     m \<le> uuids_drawn s \<and>
     (\<forall>r \<in> set (tbl_companies s @ tx_companies s).
        r \<in> old_c \<or> (\<exists>n \<ge> m. c_id r = JStr (uuid4 cfg n))) \<and>
     (\<forall>r \<in> set (tbl_products s @ tx_products s).
        r \<in> old_p \<or> (\<exists>n \<ge> m. p_id r = JStr (uuid4 cfg n))) \<and>
     (\<forall>x \<in> set (pending_products s). map_of (snd x) ''id'' = None)"

text \<open>
  The database after a first load of a file holding the one company \<open>Acme Pay\<close>, and that
  company as a file would give it with identifiers of its own.
\<close>

definition loaded_session :: session where
  "loaded_session =
     snd (load_data_from_json (example_orm True) (Json (Some [payflow_company])) empty_session)"

definition tagged_company :: company_data where
  "tagged_company =
     \<lparr>cd_fields = (''id'', JStr ''company-1'') # cd_fields payflow_company,
      cd_products =
        map_option (map (\<lambda>p. (''id'', JStr ''product-1'') # p)) (cd_products payflow_company)\<rparr>"

section \<open>Properties of the Name Registry\<close>

subsection \<open>Splitting ignores surrounding whitespace\<close>

lemma split_Nil: "split [] = []"
  by (subst split.simps) simp

lemma split_token:
  assumes pre: "\<forall>x\<in>set pre. is_space x"
    and tok: "tok \<noteq> []" "\<forall>x\<in>set tok. \<not> is_space x"
    and Y: "Y = [] \<or> is_space (hd Y)"
  shows "split (pre @ tok @ Y) = tok # split Y"
proof -
  obtain c cs where t: "tok = c # cs" using tok(1) by (cases tok) auto
  have c: "\<not> is_space c" and cs: "\<forall>x\<in>set cs. \<not> is_space x" using tok(2) t by auto
  have d: "dropWhile is_space (pre @ (c # cs) @ Y) = c # (cs @ Y)"
    using pre c by (simp add: dropWhile_append)
  have tk: "takeWhile (\<lambda>x. \<not> is_space x) (c # (cs @ Y)) = c # cs"
  proof (cases Y)
    case Nil
    then show ?thesis using c cs by simp
  next
    case (Cons y ys)
    then have "is_space y" using Y by simp
    then show ?thesis using c cs Cons by (simp add: takeWhile_append2 takeWhile_tail)
  qed
  have dr: "dropWhile (\<lambda>x. \<not> is_space x) (cs @ Y) = Y"
  proof (cases Y)
    case Nil
    then show ?thesis using cs by simp
  next
    case (Cons y ys)
    then have "is_space y" using Y by simp
    then show ?thesis using cs Cons by (simp add: dropWhile_append)
  qed
  show ?thesis
    unfolding t by (subst split.simps) (simp only: d tk dr list.case)
qed

lemma rstrip_keep:
  "xs \<noteq> [] \<Longrightarrow> \<not> P (last xs) \<Longrightarrow>
   rev (dropWhile P (rev (xs @ ys))) = xs @ rev (dropWhile P (rev ys))"
  by (cases xs rule: rev_cases) (auto simp: dropWhile_append)

lemma rstrip_hd:
  assumes "rev (dropWhile P (rev ys)) \<noteq> []"
  shows "hd (rev (dropWhile P (rev ys))) = hd ys"
proof -
  have "rev ys = takeWhile P (rev ys) @ dropWhile P (rev ys)" by simp
  then have "ys = rev (dropWhile P (rev ys)) @ rev (takeWhile P (rev ys))"
    by (metis rev_append rev_rev_ident)
  then show ?thesis using assms by (metis hd_append2)
qed

lemma split_rstrip: "split (rev (dropWhile is_space (rev s))) = split s"
proof (induction s rule: split.induct)
  case (1 s)
  show ?case
  proof (cases "dropWhile is_space s")
    case Nil
    then have all: "\<forall>x\<in>set s. is_space x" by (simp add: dropWhile_eq_Nil_conv)
    then have r: "rev (dropWhile is_space (rev s)) = []" by simp
    have e: "split s = []" by (subst split.simps) (simp only: Nil list.case)
    show ?thesis by (simp only: r e split_Nil)
  next
    case (Cons c cs)
    define pre where "pre = takeWhile is_space s"
    define tok where "tok = c # takeWhile (\<lambda>x. \<not> is_space x) cs"
    define rest where "rest = dropWhile (\<lambda>x. \<not> is_space x) cs"
    define rest' where "rest' = rev (dropWhile is_space (rev rest))"
    have c: "\<not> is_space c" using Cons by (metis hd_dropWhile list.sel(1) list.distinct(1))
    have s: "s = pre @ tok @ rest"
    proof -
      have "s = pre @ (c # cs)" unfolding pre_def using Cons
        by (metis takeWhile_dropWhile_id)
      moreover have "cs = takeWhile (\<lambda>x. \<not> is_space x) cs @ rest"
        unfolding rest_def by simp
      ultimately show ?thesis unfolding tok_def by simp
    qed
    have pre: "\<forall>x\<in>set pre. is_space x" unfolding pre_def by (auto dest: set_takeWhileD)
    have tok: "tok \<noteq> []" "\<forall>x\<in>set tok. \<not> is_space x"
      unfolding tok_def using c by (auto dest: set_takeWhileD)
    have rest: "rest = [] \<or> is_space (hd rest)"
      unfolding rest_def using hd_dropWhile [of "\<lambda>x. \<not> is_space x" cs] by auto
    have rest': "rest' = [] \<or> is_space (hd rest')"
    proof (cases "rest' = []")
      case False
      then have "hd rest' = hd rest" unfolding rest'_def by (rule rstrip_hd)
      moreover have "rest \<noteq> []" using False unfolding rest'_def by auto
      ultimately show ?thesis using rest by simp
    qed simp
    have IH: "split rest' = split rest"
      unfolding rest'_def rest_def using "1.IH" [OF Cons] .
    have last: "\<not> is_space (last (pre @ tok))" using tok
      by (metis last_appendR last_in_set)
    have "rev (dropWhile is_space (rev s)) = pre @ tok @ rest'"
      using rstrip_keep [of "pre @ tok" is_space rest] last tok(1) s
      unfolding rest'_def by simp
    then have "split (rev (dropWhile is_space (rev s))) = tok # split rest'"
      using split_token [OF pre tok rest'] by simp
    moreover have "split s = tok # split rest"
      using split_token [OF pre tok rest] s by simp
    ultimately show ?thesis using IH by simp
  qed
qed

lemma split_dropWhile: "split (dropWhile is_space s) = split s"
  by (subst split.simps, subst (2) split.simps) simp

lemma split_strip: "split (strip s) = split s"
  unfolding strip_def by (simp add: split_rstrip split_dropWhile)

subsection \<open>What the scan over the registry computes\<close>

lemma scan_existing_eq:
  "scan_existing nw xs =
     Inr (\<exists>e\<in>set xs. nw \<noteq> {} \<and> set (split e) \<noteq> {} \<and>
            (7 / 10 :: rat) \<le> of_nat (card (nw \<inter> set (split e)))
                                / of_nat (max (card nw) (card (set (split e)))))"
proof (induction xs)
  case Nil
  then show ?case by simp
next
  case (Cons e xs)
  have pos: "set (split e) \<noteq> {} \<Longrightarrow> max (card nw) (card (set (split e))) \<noteq> 0"
    by (simp add: card_eq_0_iff)
  show ?case using Cons pos
    by (auto simp: Let_def truediv_def)
qed

lemma is_duplicate_company_eq:
  "is_duplicate_company used name =
     Inr (strip (lower name) \<in> set used \<or>
          (\<exists>e\<in>set used. set (split (strip (lower name))) \<noteq> {} \<and> set (split e) \<noteq> {} \<and>
            (7 / 10 :: rat) \<le> of_nat (card (set (split (strip (lower name))) \<inter> set (split e)))
               / of_nat (max (card (set (split (strip (lower name))))) (card (set (split e))))))"
  by (simp add: is_duplicate_company_def Let_def scan_existing_eq)

text \<open>
  C3. Once a name \<open>a\<close> is registered, \<^verbatim>\<open>is_duplicate_company\<close> returns true for every
  name \<open>b\<close> that equals \<open>a\<close> after lowercasing and trimming, and for every \<open>b\<close> whose
  token-overlap ratio with \<open>a\<close> is at least \<open>0.7\<close>, whatever else the registry holds.
\<close>

theorem is_duplicate_company_registered:
  assumes "strip (lower b) = strip (lower a) \<or> 7 / 10 \<le> token_overlap_ratio a b"
  shows "is_duplicate_company (register_company a used) b = Inr True"
proof -
  let ?e = "strip (lower a)"
  have mem: "?e \<in> set (register_company a used)"
    by (simp add: register_company_def set_add_def)
  from assms show ?thesis
  proof
    assume "strip (lower b) = ?e"
    then show ?thesis using mem by (simp add: is_duplicate_company_def)
  next
    assume r: "7 / 10 \<le> token_overlap_ratio a b"
    have ta: "tokens a = set (split ?e)" by (simp add: tokens_def split_strip)
    have tb: "tokens b = set (split (strip (lower b)))" by (simp add: tokens_def split_strip)
    have "token_overlap_ratio a b \<noteq> 0" using r by auto
    then have "card (tokens a \<inter> tokens b) \<noteq> 0"
      by (auto simp: token_overlap_ratio_def)
    then have ne: "tokens a \<noteq> {}" "tokens b \<noteq> {}" by auto
    have "(7 / 10 :: rat) \<le> of_nat (card (tokens b \<inter> tokens a))
               / of_nat (max (card (tokens b)) (card (tokens a)))"
      using r by (simp add: token_overlap_ratio_def max.commute Int_commute)
    then show ?thesis using mem ne unfolding ta tb
      by (subst is_duplicate_company_eq) blast
  qed
qed

theorem is_duplicate_company_registered_witness:
  "7 / 10 \<le> token_overlap_ratio ''Alpha Beta Gamma Delta'' '' alpha beta  GAMMA omega'' \<and>
   strip (lower '' alpha beta  GAMMA omega'') \<noteq> strip (lower ''Alpha Beta Gamma Delta'') \<and>
   is_duplicate_company (register_company ''Alpha Beta Gamma Delta'' [''acme''])
     '' alpha beta  GAMMA omega'' = Inr True"
proof -
  have h: "7 / 10 \<le> token_overlap_ratio ''Alpha Beta Gamma Delta'' '' alpha beta  GAMMA omega''"
    by code_simp
  have n: "strip (lower '' alpha beta  GAMMA omega'') \<noteq> strip (lower ''Alpha Beta Gamma Delta'')"
    by code_simp
  show ?thesis
    using h n is_duplicate_company_registered
      [of "'' alpha beta  GAMMA omega''" "''Alpha Beta Gamma Delta''" "[''acme'']"]
    by simp
qed

text \<open>
  C9. \<^verbatim>\<open>is_duplicate_company\<close> returns a boolean for every registry and every name: the
  division is never reached with a zero divisor. A name without tokens is a duplicate
  exactly when its normal form is in the registry, and registry entries without tokens
  contribute to the answer through the exact-match test only.
\<close>

theorem is_duplicate_company_total:
  "(\<exists>r. is_duplicate_company used name = Inr r) \<and>
   (set (split (strip (lower name))) = {} \<longrightarrow>
      is_duplicate_company used name = Inr (strip (lower name) \<in> set used)) \<and>
   is_duplicate_company used name =
     Inr (strip (lower name) \<in> set used \<or>
          is_duplicate_company (filter (\<lambda>e. set (split e) \<noteq> {}) used) name = Inr True)"
proof (intro conjI impI)
  show "\<exists>r. is_duplicate_company used name = Inr r"
    by (subst is_duplicate_company_eq) blast
next
  assume "set (split (strip (lower name))) = {}"
  then show "is_duplicate_company used name = Inr (strip (lower name) \<in> set used)"
    by (subst is_duplicate_company_eq) simp
next
  show "is_duplicate_company used name =
     Inr (strip (lower name) \<in> set used \<or>
          is_duplicate_company (filter (\<lambda>e. set (split e) \<noteq> {}) used) name = Inr True)"
    by (subst is_duplicate_company_eq, subst is_duplicate_company_eq) auto
qed

theorem is_duplicate_company_total_witness:
  "set (split (strip (lower ''  ''))) = {} \<and>
   is_duplicate_company [''acme'', ''''] ''  '' = Inr True \<and>
   is_duplicate_company [''acme''] ''  '' = Inr False"
proof -
  have h: "set (split (strip (lower ''  ''))) = {}" by code_simp
  have m: "strip (lower ''  '') \<in> set [''acme'', '''']" by code_simp
  have n: "strip (lower ''  '') \<notin> set [''acme'']" by code_simp
  show ?thesis
    using h m n is_duplicate_company_total [of "[''acme'', '''']" "''  ''"]
      is_duplicate_company_total [of "[''acme'']" "''  ''"]
    by simp
qed

section \<open>Properties of the Record Generator\<close>

lemma attempt_body_Return:
  assumes "attempt_body env n a w = (Return cd, w')"
  shows "api env (api_calls w) = Parsed cd \<and> (\<exists>ps. cd_products cd = Some ps \<and> length ps = n)
         \<and> api_calls w' = api_calls w + 1"
  using assms unfolding attempt_body_def Let_def
  by (auto split: api_outcome.splits option.splits if_splits sum.splits bool.splits prod.splits)

lemma attempt_body_calls:
  "api_calls (snd (attempt_body env n a w)) = api_calls w + 1"
  unfolding attempt_body_def Let_def
  by (auto split: api_outcome.splits option.splits if_splits sum.splits bool.splits prod.splits)

lemma attempt_body_Continue:
  assumes "attempt_body env n a w = (Continue, w')"
  shows "a < 4"
  using assms unfolding attempt_body_def Let_def
  by (auto split: api_outcome.splits option.splits if_splits sum.splits bool.splits prod.splits)

lemma attempt_loop_Some:
  assumes "attempt_loop env n a w = (Inr (Some cd), w')"
  shows "(\<exists>ps. cd_products cd = Some ps \<and> length ps = n) \<and> api_calls w < api_calls w'
         \<and> api env (api_calls w' - 1) = Parsed cd"
  using assms
proof (induction env n a w rule: attempt_loop.induct)
  case (1 env n a w)
  from "1.prems" have lt: "a < 5"
    by (subst (asm) attempt_loop.simps) (auto split: if_splits)
  obtain out w1 where b: "attempt_body env n a w = (out, w1)" by (cases "attempt_body env n a w")
  have calls: "api_calls w1 = api_calls w + 1" using attempt_body_calls [of env n a w] b by simp
  show ?case
  proof (cases out)
    case Continue
    then have "attempt_loop env n (a + 1) w1 = (Inr (Some cd), w')"
      using "1.prems" lt b by (subst (asm) attempt_loop.simps) simp
    from "1.IH"(1) [OF lt b [symmetric] Continue this] calls show ?thesis by simp
  next
    case (Return c)
    then have "c = cd" "w1 = w'"
      using "1.prems" lt b by (subst (asm) attempt_loop.simps, simp)+
    then show ?thesis using attempt_body_Return [of env n a w cd w'] b Return by simp
  next
    case (Raise e)
    then have "a \<noteq> 4 \<and> attempt_loop env n (a + 1) w1 = (Inr (Some cd), w')"
      using "1.prems" lt b by (subst (asm) attempt_loop.simps) (simp split: if_splits)
    then show ?thesis using "1.IH"(2) [OF lt b [symmetric] Raise] calls by simp
  qed
qed

text \<open>The fifth attempt ends in \<^verbatim>\<open>return\<close> or \<^verbatim>\<open>raise\<close>: the loop never runs to its end.\<close>

lemma attempt_loop_not_None:
  "a \<le> 4 \<Longrightarrow> fst (attempt_loop env n a w) \<noteq> Inr None"
proof (induction env n a w rule: attempt_loop.induct)
  case (1 env n a w)
  obtain out w1 where b: "attempt_body env n a w = (out, w1)" by (cases "attempt_body env n a w")
  have lt: "a < 5" using "1.prems" by simp
  show ?case
  proof (cases out)
    case Continue
    then have a4: "a < 4" using attempt_body_Continue b by blast
    then have "a + 1 \<le> 4" by simp
    from "1.IH"(1) [OF lt b [symmetric] Continue this] show ?thesis
      using lt b Continue by (subst attempt_loop.simps) simp
  next
    case (Return c)
    then show ?thesis using lt b by (subst attempt_loop.simps) simp
  next
    case (Raise e)
    show ?thesis
    proof (cases "a = 4")
      case True
      then show ?thesis using lt b Raise by (subst attempt_loop.simps) simp
    next
      case False
      then have "a + 1 \<le> 4" using "1.prems" by simp
      from "1.IH"(2) [OF lt b [symmetric] Raise False this] show ?thesis
        using lt b Raise False by (subst attempt_loop.simps) simp
    qed
  qed
qed

lemma generate_company_data_returns:
  "fst (generate_company_data env industry w) \<noteq> Inr None"
  unfolding generate_company_data_def
  by (simp add: split_def Let_def attempt_loop_not_None)

text \<open>
  C2 (the code departs from the claim). The registry holds \<open>payflow\<close>, so
  \<^verbatim>\<open>is_duplicate_product("PayFlow")\<close> is true; on the first attempt, with four attempts
  left, \<^verbatim>\<open>generate_company_data\<close> nevertheless returns the record, registers its names
  and makes no second API call.
\<close>

theorem generate_company_data_returns_duplicate_product:
  "is_duplicate_product (used_product_names payflow_world) ''PayFlow'' \<and>
   generate_company_data payflow_env ''FinTech'' payflow_world =
     (Inr (Some payflow_company),
      payflow_world\<lparr>used_company_names := [''acme pay''],
                    used_product_names := [''coinvault'', ''ledgerlite'', ''payflow''],
                    api_calls := 1, draws := 1\<rparr>)"
  by code_simp

text \<open>
  C4. A record returned by \<^verbatim>\<open>generate_company_data\<close> is the object parsed from the last
  API call; it has a product list whose length is the number drawn by
  \<^verbatim>\<open>random.choice([3, 4])\<close> before the first call, which is 3 or 4.
\<close>

theorem generate_company_data_product_count:
  assumes "generate_company_data env industry w = (Inr (Some company), w')"
  shows "\<exists>products. cd_products company = Some products \<and>
           length products = fst (random_choice env [3, 4] w) \<and>
           (length products = 3 \<or> length products = 4) \<and>
           api env (api_calls w' - 1) = Parsed company"
proof -
  obtain n w1 where r: "random_choice env [3, 4 :: nat] w = (n, w1)"
    by (cases "random_choice env [3, 4 :: nat] w")
  have n: "n = 3 \<or> n = 4"
  proof -
    define m where "m = rand env (draws w) mod 2"
    have "m = 0 \<or> m = 1" unfolding m_def by arith
    moreover have "n = [3, 4] ! m" using r by (auto simp: random_choice_def m_def numeral_2_eq_2)
    ultimately show ?thesis by auto
  qed
  have "attempt_loop env n 0 w1 = (Inr (Some company), w')"
    using assms r by (simp add: generate_company_data_def)
  from attempt_loop_Some [OF this] show ?thesis using r n by auto
qed

theorem generate_company_data_product_count_witness:
  "generate_company_data payflow_env ''SaaS'' (payflow_world\<lparr>used_product_names := []\<rparr>) =
     (Inr (Some payflow_company),
      payflow_world\<lparr>used_company_names := [''acme pay''],
                    used_product_names := [''coinvault'', ''ledgerlite'', ''payflow''],
                    api_calls := 1, draws := 1\<rparr>) \<and>
   (\<exists>products. cd_products payflow_company = Some products \<and> length products = 3)"
proof -
  have run: "generate_company_data payflow_env ''SaaS'' (payflow_world\<lparr>used_product_names := []\<rparr>) =
     (Inr (Some payflow_company),
      payflow_world\<lparr>used_company_names := [''acme pay''],
                    used_product_names := [''coinvault'', ''ledgerlite'', ''payflow''],
                    api_calls := 1, draws := 1\<rparr>)"
    by code_simp
  have three: "fst (random_choice payflow_env [3, 4] (payflow_world\<lparr>used_product_names := []\<rparr>))
                 = (3 :: nat)"
    by code_simp
  show ?thesis
    using run three generate_company_data_product_count [OF run] by auto
qed

section \<open>Properties of the checkpoint store and the orchestrator\<close>

lemma set_update_Names:
  "set (foldl (\<lambda>acc name. set_add name acc) used names) = set used \<union> set names"
  by (induction names arbitrary: used) (auto simp: set_add_def)

lemma set_update_set:
  "set_update used field = Inr used' \<Longrightarrow> set used' = set used \<union> persisted_names field"
  by (cases field) (auto simp: set_update_def persisted_names_def set_update_Names)

lemma set_update_Inl: "(\<exists>e. set_update used field = Inl e) \<longleftrightarrow> field = NotIterable"
  by (cases field) (auto simp: set_update_def)

lemma load_progress_loaded:
  assumes "progress_file w = Content pd"
    and "pd_used_company_names pd \<noteq> NotIterable" and "pd_used_product_names pd \<noteq> NotIterable"
  shows "\<exists>cn pn.
           set_update (used_company_names w) (pd_used_company_names pd) = Inr cn \<and>
           set_update (used_product_names w) (pd_used_product_names pd) = Inr pn \<and>
           load_progress w =
             ((case pd_companies pd of None \<Rightarrow> [] | Some cs \<Rightarrow> cs,
               case pd_current_index pd of None \<Rightarrow> 0 | Some i \<Rightarrow> i),
              w\<lparr>used_company_names := cn, used_product_names := pn\<rparr>)"
proof -
  obtain cn where cn: "set_update (used_company_names w) (pd_used_company_names pd) = Inr cn"
    using assms(2) set_update_Inl [of "used_company_names w" "pd_used_company_names pd"]
    by (cases "set_update (used_company_names w) (pd_used_company_names pd)") auto
  obtain pn where pn: "set_update (used_product_names w) (pd_used_product_names pd) = Inr pn"
    using assms(3) set_update_Inl [of "used_product_names w" "pd_used_product_names pd"]
    by (cases "set_update (used_product_names w) (pd_used_product_names pd)") auto
  show ?thesis using assms(1) cn pn by (simp add: load_progress_def Let_def)
qed

text \<open>
  C5. \<^verbatim>\<open>load_progress\<close> always returns. Without a checkpoint file it returns \<open>([], 0)\<close>
  and leaves the whole state, both registry sets included, as it was. With a file that
  cannot be read, or whose name lists cannot be merged, it prints the warning and returns
  \<open>([], 0)\<close>. With a file that loads, it returns the stored companies and index (\<open>[]\<close>
  and \<open>0\<close> for a missing key) and each registry set becomes its union with the
  persisted set.
\<close>

theorem load_progress_cases:
  "(progress_file w = NoFile \<longrightarrow> load_progress w = (([], 0), w)) \<and>
   (progress_file w = Unreadable \<longrightarrow> load_progress w = (([], 0), print Warning w)) \<and>
   (\<forall>pd. progress_file w = Content pd \<and>
         (pd_used_company_names pd = NotIterable \<or> pd_used_product_names pd = NotIterable) \<longrightarrow>
         fst (load_progress w) = ([], 0) \<and>
         stdout (snd (load_progress w)) = stdout w @ [Warning]) \<and>
   (\<forall>pd. progress_file w = Content pd \<and>
         pd_used_company_names pd \<noteq> NotIterable \<and> pd_used_product_names pd \<noteq> NotIterable \<longrightarrow>
         fst (load_progress w) =
           (case pd_companies pd of None \<Rightarrow> [] | Some cs \<Rightarrow> cs,
            case pd_current_index pd of None \<Rightarrow> 0 | Some i \<Rightarrow> i) \<and>
         set (used_company_names (snd (load_progress w))) =
           set (used_company_names w) \<union> persisted_names (pd_used_company_names pd) \<and>
         set (used_product_names (snd (load_progress w))) =
           set (used_product_names w) \<union> persisted_names (pd_used_product_names pd) \<and>
         stdout (snd (load_progress w)) = stdout w)"
proof (intro conjI allI impI)
  assume "progress_file w = NoFile"
  then show "load_progress w = (([], 0), w)" by (simp add: load_progress_def)
next
  assume "progress_file w = Unreadable"
  then show "load_progress w = (([], 0), print Warning w)" by (simp add: load_progress_def)
next
  fix pd
  assume a: "progress_file w = Content pd \<and>
    (pd_used_company_names pd = NotIterable \<or> pd_used_product_names pd = NotIterable)"
  then show "fst (load_progress w) = ([], 0)"
    by (cases "pd_used_company_names pd"; cases "pd_used_product_names pd")
       (auto simp: load_progress_def set_update_def Let_def)
  from a show "stdout (snd (load_progress w)) = stdout w @ [Warning]"
    by (cases "pd_used_company_names pd"; cases "pd_used_product_names pd")
       (auto simp: load_progress_def set_update_def Let_def print_def)
next
  fix pd
  assume a: "progress_file w = Content pd \<and>
    pd_used_company_names pd \<noteq> NotIterable \<and> pd_used_product_names pd \<noteq> NotIterable"
  from load_progress_loaded [of w pd] a obtain cn pn where
    cn: "set_update (used_company_names w) (pd_used_company_names pd) = Inr cn" and
    pn: "set_update (used_product_names w) (pd_used_product_names pd) = Inr pn" and
    l: "load_progress w =
      ((case pd_companies pd of None \<Rightarrow> [] | Some cs \<Rightarrow> cs,
        case pd_current_index pd of None \<Rightarrow> 0 | Some i \<Rightarrow> i),
       w\<lparr>used_company_names := cn, used_product_names := pn\<rparr>)"
    by blast
  show "fst (load_progress w) =
           (case pd_companies pd of None \<Rightarrow> [] | Some cs \<Rightarrow> cs,
            case pd_current_index pd of None \<Rightarrow> 0 | Some i \<Rightarrow> i)"
    by (simp add: l)
  show "set (used_company_names (snd (load_progress w))) =
           set (used_company_names w) \<union> persisted_names (pd_used_company_names pd)"
    using set_update_set [OF cn] by (simp add: l)
  show "set (used_product_names (snd (load_progress w))) =
           set (used_product_names w) \<union> persisted_names (pd_used_product_names pd)"
    using set_update_set [OF pn] by (simp add: l)
  show "stdout (snd (load_progress w)) = stdout w" by (simp add: l)
qed

theorem load_progress_cases_witness:
  "load_progress payflow_world = (([], 0), payflow_world) \<and>
   load_progress (payflow_world\<lparr>progress_file := Unreadable\<rparr>) =
     (([], 0), print Warning (payflow_world\<lparr>progress_file := Unreadable\<rparr>)) \<and>
   fst (load_progress (resume_world 1)) = ([payflow_company], 1) \<and>
   set (used_company_names (snd (load_progress (resume_world 1)))) = {''acme pay''} \<and>
   set (used_product_names (snd (load_progress (resume_world 1)))) =
     {''payflow'', ''ledgerlite'', ''coinvault''}"
proof -
  have f1: "progress_file payflow_world = NoFile" by (simp add: payflow_world_def)
  have f2: "progress_file (payflow_world\<lparr>progress_file := Unreadable\<rparr>) = Unreadable" by simp
  define pd where "pd =
     \<lparr>pd_companies = Some [payflow_company], pd_current_index = Some (1 :: nat),
      pd_total_target = Some (10 :: nat), pd_used_company_names = Names [''acme pay''],
      pd_used_product_names = Names [''payflow'', ''ledgerlite'', ''coinvault'']\<rparr>"
  have f3: "progress_file (resume_world 1) = Content pd \<and>
      pd_used_company_names pd \<noteq> NotIterable \<and> pd_used_product_names pd \<noteq> NotIterable"
    by (simp add: resume_world_def pd_def)
  have u: "used_company_names (resume_world 1) = []" "used_product_names (resume_world 1) = []"
    by (simp_all add: resume_world_def payflow_world_def)
  show ?thesis
    using f1 f2 f3 u
      load_progress_cases [of payflow_world]
      load_progress_cases [of "payflow_world\<lparr>progress_file := Unreadable\<rparr>"]
      load_progress_cases [of "resume_world 1"]
    by (auto simp: pd_def persisted_names_def)
qed

subsection \<open>The generation loop\<close>





lemma save_progress_stdout: "stdout (snd (save_progress sys cs k w)) = stdout w"
  by (simp add: save_progress_def Let_def split: write_outcome.splits)

lemma save_progress_None:
  "fst (save_progress sys cs k w) = None \<Longrightarrow>
   progress_file (snd (save_progress sys cs k w)) = Content (checkpoint cs k w)"
  by (simp add: save_progress_def Let_def split: write_outcome.splits)




lemma generating_indices_append:
  "generating_indices (xs @ ys) = generating_indices xs @ generating_indices ys"
  by (induction xs rule: generating_indices.induct) auto

lemma print_line_indices:
  "generating_indices [l] = [] \<Longrightarrow>
   generating_indices (stdout (snd (print_line sys l w))) = generating_indices (stdout w)"
  by (simp add: print_line_def print_def generating_indices_append)





subsection \<open>The resume check\<close>








subsection \<open>Checkpoints of the loop\<close>




subsection \<open>The final save\<close>




section \<open>Properties of the Ingestion Endpoint\<close>

lemma map_of_without_id: "k \<noteq> ''id'' \<Longrightarrow> map_of (without_id d) k = map_of d k"
  unfolding without_id_def by (induction d) auto

lemma map_of_without_id_id: "map_of (without_id d) ''id'' = None"
  unfolding without_id_def by (induction d) auto

lemma without_id_idem: "without_id (without_id d) = without_id d"
  unfolding without_id_def by simp

lemma keys_without_id: "fst ` set (without_id d) = fst ` set d - {''id''}"
  unfolding without_id_def by force

lemma primary_key_frame:
  "primary_key cfg obj s = (key, s') \<Longrightarrow>
     tbl_companies s' = tbl_companies s \<and> tx_companies s' = tx_companies s \<and>
     tbl_products s' = tbl_products s \<and> tx_products s' = tx_products s \<and>
     pending_products s' = pending_products s \<and> uuids_drawn s \<le> uuids_drawn s'"
  unfolding primary_key_def by (auto split: option.splits jval.splits)

lemma insert_products_frame:
  "insert_products cfg ps s = Inr s' \<Longrightarrow>
     tbl_companies s' = tbl_companies s \<and> tx_companies s' = tx_companies s \<and>
     tbl_products s' = tbl_products s \<and> pending_products s' = pending_products s"
proof (induction ps arbitrary: s)
  case Nil
  then show ?case by simp
next
  case (Cons p ps)
  obtain cid obj where p: "p = (cid, obj)" by (cases p)
  obtain key s1 where k: "primary_key cfg obj s = (key, s1)" by (cases "primary_key cfg obj s")
  from Cons.prems p k have
    "insert_products cfg ps
       (s1\<lparr>tx_products := tx_products s1 @
              [\<lparr>p_id = key, p_company_id = cid, p_cols = without_id obj\<rparr>]\<rparr>) = Inr s'"
    by (simp split: if_splits)
  from Cons.IH [OF this] primary_key_frame [OF k] show ?case by simp
qed

lemma flush_frame:
  "flush cfg s = Inr s' \<Longrightarrow>
     tbl_companies s' = tbl_companies s \<and> tx_companies s' = tx_companies s \<and>
     tbl_products s' = tbl_products s \<and> pending_products s' = []"
  unfolding flush_def
  by (auto split: sum.splits dest: insert_products_frame)

lemma flush_empty: "pending_products s = [] \<Longrightarrow> flush cfg s = Inr s"
  unfolding flush_def by simp

lemma name_exists_cong:
  "tbl_companies s' = tbl_companies s \<Longrightarrow> tx_companies s' = tx_companies s \<Longrightarrow>
   name_exists n s' = name_exists n s"
  unfolding name_exists_def by simp

lemma add_products_frame:
  "add_products cid ps s = Inr s' \<Longrightarrow>
     tbl_companies s' = tbl_companies s \<and> tx_companies s' = tx_companies s \<and>
     tbl_products s' = tbl_products s \<and> tx_products s' = tx_products s \<and>
     uuids_drawn s' = uuids_drawn s"
proof (induction ps arbitrary: s)
  case Nil
  then show ?case by simp
next
  case (Cons p ps)
  from Cons.prems obtain obj where
    "add_products cid ps (s\<lparr>pending_products := pending_products s @ [obj]\<rparr>) = Inr s'"
    by (auto simp: Let_def split: sum.splits)
  from Cons.IH [OF this] show ?case by simp
qed

lemma query_company_Inr:
  "query_company cfg n s = Inr (b, s1) \<Longrightarrow>
     b = name_exists n s \<and> tbl_companies s1 = tbl_companies s \<and> tx_companies s1 = tx_companies s"
  unfolding query_company_def
  by (auto split: if_splits sum.splits dest!: flush_frame simp: name_exists_def)

lemma add_company_flush_Inr:
  assumes "add_company_flush cfg obj s = Inr (key, s')"
  shows "tbl_companies s' = tbl_companies s \<and>
         (\<exists>k. tx_companies s' = tx_companies s @ [\<lparr>c_id = k, c_cols = without_id obj\<rparr>])"
proof -
  obtain k s1 where k: "primary_key cfg obj s = (k, s1)" by (cases "primary_key cfg obj s")
  from assms k have "flush cfg (s1\<lparr>tx_companies := tx_companies s1 @
                       [\<lparr>c_id = k, c_cols = without_id obj\<rparr>]\<rparr>) = Inr s'"
    unfolding add_company_flush_def by (auto simp: Let_def split: if_splits sum.splits)
  from flush_frame [OF this] primary_key_frame [OF k] show ?thesis by auto
qed

lemma try_company_Inr:
  assumes "try_company cfg c s = Inr (out, s')"
  shows "(\<exists>n. map_of (cd_fields c) ''name'' = Some n \<and> name_exists n s') \<and>
         (\<forall>n. name_exists n s \<longrightarrow> name_exists n s')"
proof -
  from assms obtain n where n: "map_of (cd_fields c) ''name'' = Some n"
    unfolding try_company_def by (auto split: option.splits)
  from assms n obtain b s1 where q: "query_company cfg n s = Inr (b, s1)"
    unfolding try_company_def by (auto split: sum.splits)
  note q1 = query_company_Inr [OF q]
  show ?thesis
  proof (cases b)
    case True
    then have "s' = s1" using assms n q unfolding try_company_def by simp
    then show ?thesis using q1 True n by (auto simp: name_exists_def)
  next
    case False
    from assms n q False obtain key s2 where
      a: "add_company_flush cfg (without_id (cd_fields c)) s1 = Inr (key, s2)" and
      p: "add_products key (case cd_products c of None \<Rightarrow> [] | Some ps \<Rightarrow> ps) s2 = Inr s'"
      unfolding try_company_def new_Company_def
      by (auto simp: Let_def split: sum.splits if_splits prod.splits)
    from add_company_flush_Inr [OF a] obtain k where
      t: "tbl_companies s2 = tbl_companies s1"
         "tx_companies s2 = tx_companies s1 @
            [\<lparr>c_id = k, c_cols = without_id (without_id (cd_fields c))\<rparr>]"
      by auto
    have "map_of (without_id (without_id (cd_fields c))) ''name'' = Some n"
      using n by (simp add: map_of_without_id)
    then show ?thesis
      using t q1 add_products_frame [OF p] n by (auto simp: name_exists_def)
  qed
qed

lemma load_company_no_error:
  assumes "errors (load_company cfg st c) = []"
  shows "errors st = [] \<and>
         (\<exists>out. try_company cfg c (db st) = Inr (out, db (load_company cfg st c)))"
  using assms unfolding load_company_def
  by (auto split: sum.splits company_outcome.splits prod.splits)

lemma foldl_no_error:
  "errors (foldl (load_company cfg) st cs) = [] \<Longrightarrow>
     errors st = [] \<and>
     (\<forall>c \<in> set cs. \<exists>n. map_of (cd_fields c) ''name'' = Some n \<and>
                      name_exists n (db (foldl (load_company cfg) st cs))) \<and>
     (\<forall>n. name_exists n (db st) \<longrightarrow> name_exists n (db (foldl (load_company cfg) st cs)))"
proof (induction cs rule: rev_induct)
  case Nil
  then show ?case by simp
next
  case (snoc c cs)
  let ?st = "foldl (load_company cfg) st cs"
  from snoc.prems have e: "errors (load_company cfg ?st c) = []" by simp
  from load_company_no_error [OF e] obtain out where
    l: "errors ?st = []" "try_company cfg c (db ?st) = Inr (out, db (load_company cfg ?st c))"
    by blast
  from try_company_Inr [OF l(2)] snoc.IH [OF l(1)] show ?case by auto
qed

lemma commit_Inr:
  "commit cfg s = Inr s' \<Longrightarrow>
     tx_companies s' = [] \<and> tx_products s' = [] \<and> pending_products s' = [] \<and>
     tbl_companies s' = tbl_companies s @ tx_companies s"
  unfolding commit_def by (auto split: sum.splits dest!: flush_frame)

lemma commit_clean:
  "tx_companies s = [] \<Longrightarrow> tx_products s = [] \<Longrightarrow> pending_products s = [] \<Longrightarrow>
   commit cfg s = Inr s"
  unfolding commit_def by (simp add: flush_empty)

lemma try_company_skip:
  "pending_products s = [] \<Longrightarrow> map_of (cd_fields c) ''name'' = Some n \<Longrightarrow> name_exists n s \<Longrightarrow>
   try_company cfg c s = Inr (Skipped, s)"
  unfolding try_company_def query_company_def by (simp add: flush_empty)

lemma foldl_skip:
  "pending_products (db st) = [] \<Longrightarrow>
   \<forall>c \<in> set cs. \<exists>n. map_of (cd_fields c) ''name'' = Some n \<and> name_exists n (db st) \<Longrightarrow>
   foldl (load_company cfg) st cs = st\<lparr>skipped_count := skipped_count st + length cs\<rparr>"
proof (induction cs arbitrary: st)
  case Nil
  then show ?case by simp
next
  case (Cons c cs)
  from Cons.prems obtain n where
    n: "map_of (cd_fields c) ''name'' = Some n" "name_exists n (db st)" by auto
  have step: "load_company cfg st c = st\<lparr>skipped_count := skipped_count st + 1\<rparr>"
    unfolding load_company_def using try_company_skip [OF Cons.prems(1) n] by simp
  have "foldl (load_company cfg) (st\<lparr>skipped_count := skipped_count st + 1\<rparr>) cs =
        (st\<lparr>skipped_count := skipped_count st + 1\<rparr>)
          \<lparr>skipped_count := skipped_count (st\<lparr>skipped_count := skipped_count st + 1\<rparr>) + length cs\<rparr>"
    using Cons.prems by (intro Cons.IH) auto
  then show ?case using step by simp
qed

lemma add_products_without_id:
  "add_products key (map without_id ps) s = add_products key ps s"
  by (induction ps arbitrary: s) (simp_all add: without_id_idem split: sum.splits)

lemma try_company_drop_ids: "try_company cfg (drop_ids c) s = try_company cfg c s"
  unfolding try_company_def drop_ids_def
  by (cases "cd_products c")
     (simp_all add: map_of_without_id without_id_idem add_products_without_id
        cong: option.case_cong sum.case_cong prod.case_cong bool.case_cong)

lemma load_company_drop_ids: "load_company cfg st (drop_ids c) = load_company cfg st c"
  unfolding load_company_def try_company_drop_ids
  by (simp add: drop_ids_def map_of_without_id cong: sum.case_cong)

lemma foldl_drop_ids:
  "foldl (load_company cfg) st (map drop_ids cs) = foldl (load_company cfg) st cs"
  by (induction cs arbitrary: st) (simp_all add: load_company_drop_ids)

lemma load_data_drop_ids:
  "load_data_from_json cfg (Json (map_option (map drop_ids) data)) s =
   load_data_from_json cfg (Json data) s"
  unfolding load_data_from_json_def
  by (cases data) (simp_all add: foldl_drop_ids)

lemma primary_key_default:
  "map_of obj ''id'' = None \<Longrightarrow>
   primary_key cfg obj s = (JStr (uuid4 cfg (uuids_drawn s)), s\<lparr>uuids_drawn := uuids_drawn s + 1\<rparr>)"
  unfolding primary_key_def by simp

lemma insert_products_ids:
  "ids_generated cfg m oc op s \<Longrightarrow> \<forall>x \<in> set ps. map_of (snd x) ''id'' = None \<Longrightarrow>
   insert_products cfg ps s = Inr s' \<Longrightarrow> ids_generated cfg m oc op s'"
proof (induction ps arbitrary: s)
  case Nil
  then show ?case by simp
next
  case (Cons p ps)
  obtain cid obj where p: "p = (cid, obj)" by (cases p)
  have noid: "map_of obj ''id'' = None" using Cons.prems(2) p by simp
  let ?s1 = "s\<lparr>uuids_drawn := uuids_drawn s + 1,
               tx_products := tx_products s @
                 [\<lparr>p_id = JStr (uuid4 cfg (uuids_drawn s)), p_company_id = cid,
                   p_cols = without_id obj\<rparr>]\<rparr>"
  have run: "insert_products cfg ps ?s1 = Inr s'"
    using Cons.prems(3) p primary_key_default [OF noid, of cfg s]
    by (simp split: if_splits)
  have "ids_generated cfg m oc op ?s1"
    using Cons.prems(1) unfolding ids_generated_def
    by auto
  from Cons.IH [OF this _ run] Cons.prems(2) show ?case by simp
qed

lemma flush_ids:
  "ids_generated cfg m oc op s \<Longrightarrow> flush cfg s = Inr s' \<Longrightarrow> ids_generated cfg m oc op s'"
proof -
  assume i: "ids_generated cfg m oc op s" and f: "flush cfg s = Inr s'"
  from f obtain s1 where
    s1: "insert_products cfg (pending_products s) s = Inr s1" "s' = s1\<lparr>pending_products := []\<rparr>"
    unfolding flush_def by (auto split: sum.splits)
  have "ids_generated cfg m oc op s1"
    using insert_products_ids [OF i _ s1(1)] i unfolding ids_generated_def by blast
  then show ?thesis using s1(2) by (auto simp: ids_generated_def)
qed

lemma add_products_ids:
  "ids_generated cfg m oc op s \<Longrightarrow> add_products key ps s = Inr s' \<Longrightarrow>
   ids_generated cfg m oc op s'"
proof (induction ps arbitrary: s)
  case Nil
  then show ?case by simp
next
  case (Cons p ps)
  from Cons.prems(2) have
    run: "add_products key ps
            (s\<lparr>pending_products := pending_products s @ [(key, without_id p)]\<rparr>) = Inr s'"
    by (auto simp: Let_def new_Product_def split: sum.splits if_splits)
  have "ids_generated cfg m oc op
          (s\<lparr>pending_products := pending_products s @ [(key, without_id p)]\<rparr>)"
    using Cons.prems(1) unfolding ids_generated_def by (auto simp: map_of_without_id_id)
  from Cons.IH [OF this run] show ?case .
qed

lemma add_company_flush_ids:
  assumes "ids_generated cfg m oc op s" and "map_of obj ''id'' = None"
    and "add_company_flush cfg obj s = Inr (key, s')"
  shows "ids_generated cfg m oc op s'"
proof -
  let ?s2 = "s\<lparr>uuids_drawn := uuids_drawn s + 1,
               tx_companies := tx_companies s @
                 [\<lparr>c_id = JStr (uuid4 cfg (uuids_drawn s)), c_cols = without_id obj\<rparr>]\<rparr>"
  have f: "flush cfg ?s2 = Inr s'"
    using assms(3) primary_key_default [OF assms(2), of cfg s]
    unfolding add_company_flush_def by (auto simp: Let_def split: if_splits sum.splits)
  have "ids_generated cfg m oc op ?s2"
    using assms(1) unfolding ids_generated_def
    by auto
  from flush_ids [OF this f] show ?thesis .
qed

lemma try_company_ids:
  assumes "ids_generated cfg m oc op s" and "try_company cfg c s = Inr (out, s')"
  shows "ids_generated cfg m oc op s'"
proof -
  from assms(2) obtain n where n: "map_of (cd_fields c) ''name'' = Some n"
    unfolding try_company_def by (auto split: option.splits)
  from assms(2) n obtain b s1 where q: "query_company cfg n s = Inr (b, s1)"
    unfolding try_company_def by (auto split: sum.splits)
  have i1: "ids_generated cfg m oc op s1"
    using q assms(1) unfolding query_company_def
    by (auto split: if_splits sum.splits dest: flush_ids)
  show ?thesis
  proof (cases b)
    case True
    then have "s' = s1" using assms(2) n q unfolding try_company_def by simp
    then show ?thesis using i1 by simp
  next
    case False
    from assms(2) n q False obtain key s2 where
      a: "add_company_flush cfg (without_id (cd_fields c)) s1 = Inr (key, s2)" and
      p: "add_products key (case cd_products c of None \<Rightarrow> [] | Some ps \<Rightarrow> ps) s2 = Inr s'"
      unfolding try_company_def new_Company_def
      by (auto simp: Let_def split: sum.splits if_splits prod.splits)
    from add_company_flush_ids [OF i1 map_of_without_id_id a]
    show ?thesis using add_products_ids p by blast
  qed
qed

lemma rollback_ids: "ids_generated cfg m oc op s \<Longrightarrow> ids_generated cfg m oc op (rollback s)"
  unfolding ids_generated_def rollback_def by auto

lemma load_company_ids:
  "ids_generated cfg m oc op (db st) \<Longrightarrow> ids_generated cfg m oc op (db (load_company cfg st c))"
  unfolding load_company_def
  by (auto split: sum.splits company_outcome.splits prod.splits
        intro: rollback_ids try_company_ids)

lemma foldl_ids:
  "ids_generated cfg m oc op (db st) \<Longrightarrow>
   ids_generated cfg m oc op (db (foldl (load_company cfg) st cs))"
  by (induction cs arbitrary: st) (simp_all add: load_company_ids)

lemma commit_ids:
  assumes "ids_generated cfg m oc op s" and "commit cfg s = Inr s'"
  shows "ids_generated cfg m oc op s'"
proof -
  from assms(2) obtain s1 where f: "flush cfg s = Inr s1" and
    s': "s' = s1\<lparr>tbl_companies := tbl_companies s1 @ tx_companies s1,
                 tbl_products := tbl_products s1 @ tx_products s1,
                 tx_companies := [], tx_products := []\<rparr>"
    unfolding commit_def by (auto split: sum.splits)
  from flush_ids [OF assms(1) f] show ?thesis
    unfolding s' ids_generated_def by auto
qed

lemma load_data_ids:
  assumes "ids_generated cfg m oc op s"
  shows "ids_generated cfg m oc op (snd (load_data_from_json cfg file s))"
proof (cases "file")
  case (Json data)
  let ?cs = "case data of None \<Rightarrow> [] | Some cs \<Rightarrow> cs"
  let ?st = "foldl (load_company cfg)
               \<lparr>loaded_count = 0, skipped_count = 0, errors = [], db = s\<rparr> ?cs"
  have i: "ids_generated cfg m oc op (db ?st)" using assms by (intro foldl_ids) simp
  show ?thesis
    unfolding load_data_from_json_def Json
    using i assms
    by (auto simp: Let_def split: sum.splits intro: rollback_ids commit_ids)
qed (simp_all add: load_data_from_json_def assms)

text \<open>
  C1 (the code departs from the claim). The file holds \<open>Acme Pay\<close>, which is valid, and
  then \<open>Globex\<close>, whose key \<open>ceo\<close> makes \<^verbatim>\<open>Company(**company_dict)\<close> raise. The handler's
  \<^verbatim>\<open>db.rollback()\<close> ends the whole transaction, so the row staged for \<open>Acme Pay\<close> is
  discarded with it: the response reports \<open>loaded = 1\<close> and the final commit persists
  nothing. This holds with and without autoflush. Loaded alone, \<open>Acme Pay\<close> is persisted.
\<close>

theorem load_data_rollback_discards_staged:
  "load_data_from_json (example_orm True) (Json (Some [payflow_company, globex_company]))
     empty_session =
     (Inr \<lparr>loaded = 1, skipped = 0,
           errors_reported = Some [(JStr ''Globex'', TypeError)]\<rparr>,
      empty_session\<lparr>uuids_drawn := 1\<rparr>) \<and>
   load_data_from_json (example_orm False) (Json (Some [payflow_company, globex_company]))
     empty_session =
     (Inr \<lparr>loaded = 1, skipped = 0,
           errors_reported = Some [(JStr ''Globex'', TypeError)]\<rparr>,
      empty_session\<lparr>uuids_drawn := 1\<rparr>) \<and>
   map (\<lambda>r. map_of (c_cols r) ''name'')
     (tbl_companies (snd (load_data_from_json (example_orm True)
                            (Json (Some [payflow_company])) empty_session))) =
     [Some (JStr ''Acme Pay'')]"
  by code_simp

text \<open>
  C8. If a load of the file ends with the commit and reports no error, then a second load
  of the same file into the resulting database reports \<open>loaded = 0\<close> and
  \<open>skipped\<close> = the number of companies in the file, reports no error, and leaves the
  database exactly as it was: no row is added.
\<close>

theorem load_data_twice_idempotent:
  assumes "load_data_from_json cfg (Json (Some cs)) s = (Inr r, s')"
    and "errors_reported r = None"
  shows "load_data_from_json cfg (Json (Some cs)) s' =
           (Inr \<lparr>loaded = 0, skipped = length cs, errors_reported = None\<rparr>, s')"
proof -
  let ?st0 = "\<lparr>loaded_count = 0, skipped_count = 0, errors = [], db = s\<rparr>"
  let ?st = "foldl (load_company cfg) ?st0 cs"
  from assms(1) have ne: "cs \<noteq> []"
    unfolding load_data_from_json_def by (auto split: if_splits)
  from assms(1) ne have c: "commit cfg (db ?st) = Inr s'"
    and r: "r = \<lparr>loaded = loaded_count ?st, skipped = skipped_count ?st,
                  errors_reported = (if errors ?st = [] then None else Some (errors ?st))\<rparr>"
    unfolding load_data_from_json_def by (auto simp: Let_def split: sum.splits)
  from r assms(2) have e: "errors ?st = []" by (auto split: if_splits)
  note cm = commit_Inr [OF c]
  have names: "\<forall>c \<in> set cs. \<exists>n. map_of (cd_fields c) ''name'' = Some n \<and> name_exists n s'"
    using foldl_no_error [OF e] cm by (fastforce simp: name_exists_def)
  let ?st1 = "\<lparr>loaded_count = 0, skipped_count = 0, errors = [], db = s'\<rparr>"
  have f: "foldl (load_company cfg) ?st1 cs = ?st1\<lparr>skipped_count := length cs\<rparr>"
    using foldl_skip [of ?st1 cs cfg] names cm by simp
  show ?thesis
    unfolding load_data_from_json_def using ne f commit_clean [of s' cfg] cm
    by (simp add: Let_def)
qed

theorem load_data_twice_idempotent_witness:
  "load_data_from_json (example_orm True) (Json (Some [payflow_company])) empty_session =
     (Inr \<lparr>loaded = 1, skipped = 0, errors_reported = None\<rparr>, loaded_session) \<and>
   load_data_from_json (example_orm True) (Json (Some [payflow_company])) loaded_session =
     (Inr \<lparr>loaded = 0, skipped = 1, errors_reported = None\<rparr>, loaded_session)"
proof -
  have first: "load_data_from_json (example_orm True) (Json (Some [payflow_company]))
      empty_session = (Inr \<lparr>loaded = 1, skipped = 0, errors_reported = None\<rparr>, loaded_session)"
    by code_simp
  show ?thesis
    using first load_data_twice_idempotent [OF first] by simp
qed

text \<open>
  C10. The endpoint's result and the database it leaves do not depend on any \<^verbatim>\<open>id\<close> key
  of the file: removing them all from the company and product records changes nothing.
  For a request that starts with a fresh session, every company row and every product
  row in the database afterwards is a row that was there before, or has as its primary
  key a value drawn from \<^verbatim>\<open>uuid.uuid4()\<close> during the request.
\<close>

theorem load_data_ignores_file_ids:
  "load_data_from_json cfg (Json (map_option (map drop_ids) data)) s =
     load_data_from_json cfg (Json data) s \<and>
   (tx_companies s = [] \<and> tx_products s = [] \<and> pending_products s = [] \<longrightarrow>
      (\<forall>r \<in> set (tbl_companies (snd (load_data_from_json cfg (Json data) s))).
          r \<in> set (tbl_companies s) \<or>
          (\<exists>n \<ge> uuids_drawn s. c_id r = JStr (uuid4 cfg n))) \<and>
      (\<forall>r \<in> set (tbl_products (snd (load_data_from_json cfg (Json data) s))).
          r \<in> set (tbl_products s) \<or>
          (\<exists>n \<ge> uuids_drawn s. p_id r = JStr (uuid4 cfg n))))"
proof (intro conjI impI)
  show "load_data_from_json cfg (Json (map_option (map drop_ids) data)) s =
     load_data_from_json cfg (Json data) s"
    by (rule load_data_drop_ids)
next
  assume fresh: "tx_companies s = [] \<and> tx_products s = [] \<and> pending_products s = []"
  then have "ids_generated cfg (uuids_drawn s) (set (tbl_companies s)) (set (tbl_products s)) s"
    unfolding ids_generated_def by simp
  from load_data_ids [OF this, of "Json data"]
  have i: "ids_generated cfg (uuids_drawn s) (set (tbl_companies s)) (set (tbl_products s))
             (snd (load_data_from_json cfg (Json data) s))" .
  show "\<forall>r \<in> set (tbl_companies (snd (load_data_from_json cfg (Json data) s))).
          r \<in> set (tbl_companies s) \<or> (\<exists>n \<ge> uuids_drawn s. c_id r = JStr (uuid4 cfg n))"
    using i unfolding ids_generated_def by auto
  show "\<forall>r \<in> set (tbl_products (snd (load_data_from_json cfg (Json data) s))).
          r \<in> set (tbl_products s) \<or> (\<exists>n \<ge> uuids_drawn s. p_id r = JStr (uuid4 cfg n))"
    using i unfolding ids_generated_def by auto
qed

theorem load_data_ignores_file_ids_witness:
  "tx_companies empty_session = [] \<and> tx_products empty_session = [] \<and>
   pending_products empty_session = [] \<and>
   load_data_from_json (example_orm True) (Json (Some [tagged_company])) empty_session =
     load_data_from_json (example_orm True) (Json (Some [payflow_company])) empty_session \<and>
   map c_id (tbl_companies (snd (load_data_from_json (example_orm True)
                                   (Json (Some [tagged_company])) empty_session))) =
     [JStr (uuid4 (example_orm True) 0)] \<and>
   map p_id (tbl_products (snd (load_data_from_json (example_orm True)
                                  (Json (Some [tagged_company])) empty_session))) =
     [JStr (uuid4 (example_orm True) 1), JStr (uuid4 (example_orm True) 2),
      JStr (uuid4 (example_orm True) 3)]"
proof -
  have d: "map_option (map drop_ids) (Some [tagged_company]) = Some [payflow_company]"
    by code_simp
  have fresh: "tx_companies empty_session = [] \<and> tx_products empty_session = [] \<and>
               pending_products empty_session = []"
    by (simp add: empty_session_def)
  have ids: "map c_id (tbl_companies (snd (load_data_from_json (example_orm True)
                (Json (Some [payflow_company])) empty_session))) =
             [JStr (uuid4 (example_orm True) 0)]"
    "map p_id (tbl_products (snd (load_data_from_json (example_orm True)
                (Json (Some [payflow_company])) empty_session))) =
     [JStr (uuid4 (example_orm True) 1), JStr (uuid4 (example_orm True) 2),
      JStr (uuid4 (example_orm True) 3)]"
    by code_simp+
  show ?thesis
    using d fresh ids
      load_data_ignores_file_ids [of "example_orm True" "Some [tagged_company]" empty_session]
    by simp
qed
end
